theory Spec2Isabelle
  imports Complex_Main "HOL-Library.Word"
begin

unbundle bit_operations_syntax

section \<open>Polar H10 streamer: decoders, vector assembler and session trace\<close>

text \<open>
  The development embeds the data parsers \<open>pmd_data_conv\<close> and \<open>hrm_conv\<close>, the vector
  assembler \<open>push\<close> and the transport calls of \<open>async_connect\<close> of the class
  \<open>BluetoothApp\<close>. A notification payload (a Python \<open>bytearray\<close>) is a list of bytes.
\<close>

type_synonym byte = "8 word"

subsection \<open>Python values and primitives\<close>

text \<open>
  The numbers that reach the outlet are Python ints (decoded from bytes) and floats
  (\<open>0.0\<close>, and \<open>v / 1024.0 * 1000\<close> for an integer \<open>0 \<le> v < 65536\<close>). The float
  operations are exact on these inputs: \<open>v / 1024.0\<close> only changes the exponent, and
  \<open>v * 1000 / 1024 = v * 125 / 128\<close> has a numerator below \<open>2 ^ 23\<close>. So a number is
  a rational, and \<open>NaN\<close> is kept as a separate value because \<open>push\<close> tests for it.
\<close>

datatype pynum = NaN | Num rat

fun isnan :: "pynum \<Rightarrow> bool" where
  "isnan NaN = True"
| "isnan (Num _) = False"

datatype error = IndexError | StructError

text \<open>\<open>xs[i:j]\<close> for \<open>0 \<le> i \<le> j\<close>: the slice is cut at the end of the list.\<close>

definition slice :: "'a list \<Rightarrow> nat \<Rightarrow> nat \<Rightarrow> 'a list" where
  "slice xs i j = take (j - i) (drop i xs)"

text \<open>\<open>int.from_bytes(bs, "little")\<close>; the empty byte string gives 0.\<close>

fun from_bytes_little :: "byte list \<Rightarrow> int" where
  "from_bytes_little [] = 0"
| "from_bytes_little (b # bs) = uint b + 256 * from_bytes_little bs"

text \<open>\<open>int.from_bytes(bs, "little", signed=True)\<close>: two's complement on \<open>8 * len(bs)\<close> bits.\<close>

definition from_bytes_little_signed :: "byte list \<Rightarrow> int" where
  "from_bytes_little_signed bs =
     (let u = from_bytes_little bs; n = length bs
      in if 0 < n \<and> 2 ^ (8 * n - 1) \<le> u then u - 2 ^ (8 * n) else u)"

text \<open>
  \<open>struct.unpack_from("<hhh", buf, off)\<close>: three little-endian signed 16-bit integers;
  \<open>struct.error\<close> when fewer than 6 bytes are left from \<open>off\<close>.
\<close>

definition unpack_from_hhh :: "byte list \<Rightarrow> nat \<Rightarrow> error + (int \<times> int \<times> int)" where
  "unpack_from_hhh buf off =
     (if length buf < off + 6 then Inl StructError
      else Inr (from_bytes_little_signed (slice buf off (off + 2)),
                from_bytes_little_signed (slice buf (off + 2) (off + 4)),
                from_bytes_little_signed (slice buf (off + 4) (off + 6))))"

text \<open>\<open>range(start, stop, step)\<close> for a positive step.\<close>

function py_range :: "nat \<Rightarrow> nat \<Rightarrow> nat \<Rightarrow> nat list" where
  "py_range start stop step =
     (if start < stop \<and> 0 < step then start # py_range (start + step) stop step else [])"
  by pat_completeness auto
termination
  by (relation "measure (\<lambda>(start, stop, step). stop - start)") auto

declare py_range.simps [simp del]

subsection \<open>The application object\<close>

text \<open>
  The attributes of \<open>BluetoothApp\<close> that the parsers read and write. \<open>last_ecg\<close> is
  created by the first assignment in \<open>push\<close> and tested with \<open>hasattr\<close>, so it is
  optional. \<open>outlet\<close> is the sequence of vectors handed to \<open>outlet.push_sample\<close>,
  and \<open>clock_queue\<close> counts the calls of \<open>update_busy\<close> scheduled for the interface
  thread.
\<close>

record app =
  last_hr :: pynum
  last_rri :: pynum
  last_acc :: "pynum list"
  last_ecg :: "pynum option"
  outlet :: "pynum list list"
  busyvalue :: nat
  clock_queue :: nat

text \<open>
  The application object once it is built and a scan has added the busy label, before
  the first connection. \<open>last_ecg\<close> does not exist and \<open>busyvalue\<close> is 0. The three
  caches and the outlet do not exist either; \<open>connect_to_device\<close> assigns all four
  before any notification can arrive, so the values written here are never read.
\<close>

definition new_app :: app where
  "new_app =
     \<lparr>last_hr = Num 0, last_rri = Num 0, last_acc = [Num 0, Num 0, Num 0],
      last_ecg = None, outlet = [], busyvalue = 0, clock_queue = 0\<rparr>"

text \<open>
  \<open>connect_to_device\<close> creates a new outlet and sets the HR, RRI and ACC caches to
  \<open>0.0\<close>. It does not touch \<open>last_ecg\<close>: on an object that was connected before,
  the value stored in the earlier session is still there. The four sample buffers it
  also creates are never used again.
\<close>

definition connect_to_device :: "app \<Rightarrow> app" where
  "connect_to_device s =
     s\<lparr>outlet := [], last_hr := Num 0, last_rri := Num 0,
       last_acc := [Num 0, Num 0, Num 0]\<rparr>"

text \<open>
  \<open>update_busy\<close> is decorated with Kivy's \<open>mainthread\<close>: a call only schedules the
  body with the clock of the user interface and returns. The body, which advances
  \<open>busyvalue\<close> and animates the label, runs later on the interface thread; the parsers
  never see its effect.
\<close>

definition update_busy :: "app \<Rightarrow> app" where
  "update_busy s = s\<lparr>clock_queue := clock_queue s + 1\<rparr>"

subsection \<open>Vector assembler\<close>

text \<open>
  \<open>push\<close> as it runs in the program started as a script, where \<open>math\<close> is imported
  before the application starts. \<open>outlet.push_sample(vec)\<close> appends \<open>vec\<close> to the
  sequence of emitted vectors; the outlet is declared with \<open>TOTAL_CH = 6\<close> channels, and
  \<open>numeric\<close> below shows that every vector handed to it has 6 entries.
\<close>

definition push :: "pynum \<Rightarrow> app \<Rightarrow> app" where
  "push ecg s =
     (let s1 = (if \<not> isnan ecg \<and> ecg \<noteq> Num 0 then s\<lparr>last_ecg := Some ecg\<rparr> else s);
          hr_val = (if isnan (last_hr s1) then Num 0 else last_hr s1);
          rri_val = (if isnan (last_rri s1) then Num 0 else last_rri s1);
          acc_vals = map (\<lambda>x. if isnan x then Num 0 else x) (last_acc s1);
          vec = [ecg, hr_val, rri_val] @ acc_vals
      in s1\<lparr>outlet := outlet s1 @ [vec]\<rparr>)"

text \<open>
  The idiom that follows every cache update outside the ECG branch:
  \<open>if hasattr(self, 'last_ecg'): self.push(self.last_ecg) else: self.push(0.0)\<close>.
\<close>

definition push_last_ecg :: "app \<Rightarrow> app" where
  "push_last_ecg s = (case last_ecg s of Some e \<Rightarrow> push e s | None \<Rightarrow> push (Num 0) s)"

subsection \<open>Combined-data parser\<close>

text \<open>The body of \<open>for off in range(0, len(payload), 3)\<close>, over the list of offsets.\<close>

fun ecg_loop :: "byte list \<Rightarrow> nat list \<Rightarrow> app \<Rightarrow> app" where
  "ecg_loop payload [] s = s"
| "ecg_loop payload (off # offs) s =
     ecg_loop payload offs
       (push (Num (of_int (from_bytes_little_signed (slice payload off (off + 3))))) s)"

text \<open>
  The body of \<open>for off in range(0, len(payload), 6)\<close>. An exception of \<open>unpack_from\<close>
  leaves the loop; what was assigned and pushed before stays.
\<close>

fun acc_loop :: "byte list \<Rightarrow> nat list \<Rightarrow> app \<Rightarrow> (error + unit) \<times> app" where
  "acc_loop payload [] s = (Inr (), s)"
| "acc_loop payload (off # offs) s =
     (case unpack_from_hhh payload off of
        Inl e \<Rightarrow> (Inl e, s)
      | Inr (x, y, z) \<Rightarrow>
          acc_loop payload offs
            (push_last_ecg (s\<lparr>last_acc := [Num (of_int x), Num (of_int y), Num (of_int z)]\<rparr>)))"

definition pmd_data_conv :: "byte list \<Rightarrow> app \<Rightarrow> (error + unit) \<times> app" where
  "pmd_data_conv data s =
     (case data of
        [] \<Rightarrow> (Inl IndexError, s)
      | hdr # _ \<Rightarrow>
          if hdr = 0x00 then
            (let payload = drop 10 data
             in (Inr (), update_busy (ecg_loop payload (py_range 0 (length payload) 3) s)))
          else if hdr = 0x01 then
            (let payload = drop 10 data
             in case acc_loop payload (py_range 0 (length payload) 6) s of
                  (Inl e, s') \<Rightarrow> (Inl e, s')
                | (Inr u, s') \<Rightarrow> (Inr (), update_busy s'))
          else (Inr (), update_busy s))"

subsection \<open>Heart-rate parser\<close>

text \<open>The loop \<open>while idx + 1 < len(data)\<close> over the RR intervals.\<close>

function rr_loop :: "byte list \<Rightarrow> nat \<Rightarrow> app \<Rightarrow> app" where
  "rr_loop data idx s =
     (if idx + 1 < length data then
        rr_loop data (idx + 2)
          (push_last_ecg
             (s\<lparr>last_rri := Num (of_int (from_bytes_little (slice data idx (idx + 2))) / 1024 * 1000)\<rparr>))
      else s)"
  by pat_completeness auto
termination
  by (relation "measure (\<lambda>(data, idx, s). length data - idx)") auto

declare rr_loop.simps [simp del]

definition hrm_conv :: "byte list \<Rightarrow> app \<Rightarrow> (error + unit) \<times> app" where
  "hrm_conv data s =
     (case data of
        [] \<Rightarrow> (Inl IndexError, s)
      | flags # _ \<Rightarrow>
          if flags AND 0x01 = 0 \<and> length data < 2 then (Inl IndexError, s)
          else
            (let hr = (if flags AND 0x01 \<noteq> 0 then from_bytes_little (slice data 1 3)
                       else uint (data ! 1));
                 idx = (if flags AND 0x01 \<noteq> 0 then 3 else 2);
                 s1 = push_last_ecg (s\<lparr>last_hr := Num (of_int hr)\<rparr>)
             in if flags AND 0x10 \<noteq> 0 then (Inr (), rr_loop data idx s1)
                else (Inr (), s1)))"

subsection \<open>Notification stream\<close>

text \<open>
  \<open>async_connect\<close> registers \<open>pmd_data_conv\<close> for the combined-data characteristic and
  \<open>hrm_conv\<close> for the heart-rate characteristic; both run on the one event loop of the
  connection thread, one notification at a time. A callback that raises leaves the
  object as it was at the raise.
\<close>

datatype notification = Pmd "byte list" | Hrm "byte list"

fun notify :: "notification \<Rightarrow> app \<Rightarrow> app" where
  "notify (Pmd data) s = snd (pmd_data_conv data s)"
| "notify (Hrm data) s = snd (hrm_conv data s)"

text \<open>
  A session is a call of \<open>connect_to_device\<close> followed by the notifications delivered
  while the connection lasts. \<open>stream earlier ns\<close> is the object in a session that has
  received \<open>ns\<close>, on an application that went through the sessions \<open>earlier\<close> before.
\<close>

definition session :: "notification list \<Rightarrow> app \<Rightarrow> app" where
  "session ns s = fold notify ns (connect_to_device s)"

definition stream :: "notification list list \<Rightarrow> notification list \<Rightarrow> app" where
  "stream earlier ns = session ns (fold session earlier new_app)"

fun is_hrm :: "notification \<Rightarrow> bool" where
  "is_hrm (Hrm _) = True"
| "is_hrm (Pmd _) = False"

fun is_ecg_frame :: "notification \<Rightarrow> bool" where
  "is_ecg_frame (Pmd (hdr # _)) = (hdr = 0x00)"
| "is_ecg_frame _ = False"

fun is_acc_frame :: "notification \<Rightarrow> bool" where
  "is_acc_frame (Pmd (hdr # _)) = (hdr = 0x01)"
| "is_acc_frame _ = False"

subsection \<open>Vocabulary of the specification\<close>

text \<open>
  The output vector \<open>[ECG, HR, RRI, AccX, AccY, AccZ]\<close> that the assembler builds for
  an event value and a cache, the ECG value carried for events that are not ECG samples,
  and the raw 16-bit RR values of a byte sequence, read pairwise until fewer than two
  bytes remain.
\<close>

definition resolved :: "pynum \<Rightarrow> pynum" where
  "resolved x = (if isnan x then Num 0 else x)"

definition output_vector :: "pynum \<Rightarrow> app \<Rightarrow> pynum list" where
  "output_vector ecg s =
     [ecg, resolved (last_hr s), resolved (last_rri s)] @ map resolved (last_acc s)"

definition carried_ecg :: "app \<Rightarrow> pynum" where
  "carried_ecg s = (case last_ecg s of Some e \<Rightarrow> e | None \<Rightarrow> Num 0)"

fun spec_rr_raw :: "byte list \<Rightarrow> int list" where
  "spec_rr_raw (lo # hi # rest) = (uint lo + 256 * uint hi) # spec_rr_raw rest"
| "spec_rr_raw _ = []"

definition rr_ms :: "int \<Rightarrow> pynum" where
  "rr_ms v = Num (of_int v / 1024 * 1000)"

text \<open>
  The heart-rate record as the specification words it: the HR value occupies 2 bytes
  after the flags byte when flags bit 0 is set and 1 byte otherwise, read little-endian;
  the RR list is present when flags bit 4 is set and starts after the HR value.
\<close>

definition spec_hr_width :: "byte \<Rightarrow> nat" where
  "spec_hr_width flags = (if flags AND 0x01 \<noteq> 0 then 2 else 1)"

definition spec_hr_value :: "byte list \<Rightarrow> int" where
  "spec_hr_value data = from_bytes_little (take (spec_hr_width (hd data)) (tl data))"

definition spec_rr_list :: "byte list \<Rightarrow> int list" where
  "spec_rr_list data =
     (if data \<noteq> [] \<and> hd data AND 0x10 \<noteq> 0
      then spec_rr_raw (drop (1 + spec_hr_width (hd data)) data) else [])"

subsection \<open>Session lifecycle\<close>
















subsection \<open>Invariants of the object\<close>

text \<open>
  \<open>numeric\<close>: no cached value is NaN, the accelerometer cache has three entries, a
  stored \<open>last_ecg\<close> is neither NaN nor 0, and every vector handed to the outlet has six
  entries, none of them NaN. \<open>hr_idle\<close> and \<open>acc_idle\<close>: the heart-rate (accelerometer)
  caches still hold their initial 0 and so does every vector handed to the outlet.
  \<open>carries e n\<close>: \<open>last_ecg\<close> is \<open>e\<close> and every vector handed to the outlet after the
  first \<open>n\<close> has the value of \<open>e\<close> (0 when \<open>e\<close> is absent) as its ECG entry.
\<close>

definition numeric :: "app \<Rightarrow> bool" where
  "numeric s \<longleftrightarrow>
     \<not> isnan (last_hr s) \<and> \<not> isnan (last_rri s)
     \<and> length (last_acc s) = 3 \<and> list_all (\<lambda>x. \<not> isnan x) (last_acc s)
     \<and> last_ecg s \<noteq> Some NaN \<and> last_ecg s \<noteq> Some (Num 0)
     \<and> list_all (\<lambda>vec. length vec = 6 \<and> list_all (\<lambda>x. \<not> isnan x) vec) (outlet s)"

definition hr_idle :: "app \<Rightarrow> bool" where
  "hr_idle s \<longleftrightarrow>
     last_hr s = Num 0 \<and> last_rri s = Num 0
     \<and> list_all (\<lambda>vec. vec ! 1 = Num 0 \<and> vec ! 2 = Num 0) (outlet s)"

definition acc_idle :: "app \<Rightarrow> bool" where
  "acc_idle s \<longleftrightarrow>
     last_acc s = [Num 0, Num 0, Num 0]
     \<and> list_all (\<lambda>vec. vec ! 3 = Num 0 \<and> vec ! 4 = Num 0 \<and> vec ! 5 = Num 0) (outlet s)"

definition carries :: "pynum option \<Rightarrow> nat \<Rightarrow> app \<Rightarrow> bool" where
  "carries e n s \<longleftrightarrow>
     last_ecg s = e \<and> n \<le> length (outlet s)
     \<and> list_all (\<lambda>vec. vec ! 0 = (case e of Some v \<Rightarrow> v | None \<Rightarrow> Num 0))
          (drop n (outlet s))"

section \<open>Properties\<close>

subsection \<open>Unfolding the loops\<close>

lemma py_range_more:
  "start < stop \<Longrightarrow> 0 < step \<Longrightarrow>
   py_range start stop step = start # py_range (start + step) stop step"
  by (subst py_range.simps) simp

lemma py_range_done: "\<not> start < stop \<Longrightarrow> py_range start stop step = []"
  by (subst py_range.simps) simp

lemma rr_loop_more:
  "idx + 1 < length data \<Longrightarrow>
   rr_loop data idx s =
     rr_loop data (idx + 2)
       (push_last_ecg
          (s\<lparr>last_rri := Num (of_int (from_bytes_little (slice data idx (idx + 2))) / 1024 * 1000)\<rparr>))"
  by (subst rr_loop.simps) simp

lemma rr_loop_done: "\<not> idx + 1 < length data \<Longrightarrow> rr_loop data idx s = s"
  by (subst rr_loop.simps) simp

subsection \<open>The assembler\<close>

lemma push_outlet: "outlet (push ecg s) = outlet s @ [output_vector ecg s]"
  by (simp add: push_def output_vector_def resolved_def Let_def)

lemma push_last_hr: "last_hr (push ecg s) = last_hr s"
  by (simp add: push_def Let_def)

lemma push_last_rri: "last_rri (push ecg s) = last_rri s"
  by (simp add: push_def Let_def)

lemma push_last_acc: "last_acc (push ecg s) = last_acc s"
  by (simp add: push_def Let_def)

lemma push_busyvalue: "busyvalue (push ecg s) = busyvalue s"
  by (simp add: push_def Let_def)

lemma push_last_ecg_field:
  "last_ecg (push ecg s) = (if \<not> isnan ecg \<and> ecg \<noteq> Num 0 then Some ecg else last_ecg s)"
  by (simp add: push_def Let_def)

lemma push_last_ecg_outlet:
  "outlet (push_last_ecg s) = outlet s @ [output_vector (carried_ecg s) s]"
  by (simp add: push_last_ecg_def carried_ecg_def push_outlet split: option.splits)

lemma push_last_ecg_last_hr: "last_hr (push_last_ecg s) = last_hr s"
  by (simp add: push_last_ecg_def push_last_hr split: option.splits)

lemma push_last_ecg_last_rri: "last_rri (push_last_ecg s) = last_rri s"
  by (simp add: push_last_ecg_def push_last_rri split: option.splits)

lemma push_last_ecg_last_acc: "last_acc (push_last_ecg s) = last_acc s"
  by (simp add: push_last_ecg_def push_last_acc split: option.splits)

lemma push_last_ecg_busyvalue: "busyvalue (push_last_ecg s) = busyvalue s"
  by (simp add: push_last_ecg_def push_busyvalue split: option.splits)

lemma push_last_ecg_last_ecg: "last_ecg (push_last_ecg s) = last_ecg s"
  by (simp add: push_last_ecg_def push_last_ecg_field split: option.splits)

lemmas push_fields =
  push_last_hr push_last_rri push_last_acc push_busyvalue push_last_ecg_field

lemmas push_last_ecg_fields =
  push_last_ecg_last_hr push_last_ecg_last_rri push_last_ecg_last_acc
  push_last_ecg_busyvalue push_last_ecg_last_ecg

subsection \<open>Unknown type tags\<close>

text \<open>
  C7. A non-empty combined-data payload whose first byte is neither 0x00 nor 0x01 makes
  \<open>pmd_data_conv\<close> return normally; nothing is pushed to the outlet and the cached HR,
  RRI, ACC and ECG values are unchanged.
\<close>

theorem pmd_data_conv_unknown_tag:
  assumes "data \<noteq> []" and "hd data \<noteq> 0x00" and "hd data \<noteq> 0x01"
  shows "fst (pmd_data_conv data s) = Inr ()
    \<and> outlet (snd (pmd_data_conv data s)) = outlet s
    \<and> last_hr (snd (pmd_data_conv data s)) = last_hr s
    \<and> last_rri (snd (pmd_data_conv data s)) = last_rri s
    \<and> last_acc (snd (pmd_data_conv data s)) = last_acc s
    \<and> last_ecg (snd (pmd_data_conv data s)) = last_ecg s"
  using assms by (cases data) (simp_all add: pmd_data_conv_def update_busy_def)

theorem pmd_data_conv_unknown_tag_witness:
  "[0x02, 0xAA] \<noteq> ([] :: byte list) \<and> hd [0x02, 0xAA :: byte] \<noteq> 0x00
    \<and> hd [0x02, 0xAA :: byte] \<noteq> 0x01
    \<and> fst (pmd_data_conv [0x02, 0xAA] (connect_to_device new_app)) = Inr ()
    \<and> outlet (snd (pmd_data_conv [0x02, 0xAA] (connect_to_device new_app))) = []
    \<and> last_ecg (snd (pmd_data_conv [0x02, 0xAA] (connect_to_device new_app))) = None"
  using pmd_data_conv_unknown_tag [of "[0x02, 0xAA]" "connect_to_device new_app"]
  by (simp add: connect_to_device_def new_app_def)

subsection \<open>The RR loop\<close>

lemma spec_rr_raw_short: "length bs < 2 \<Longrightarrow> spec_rr_raw bs = []"
  by (cases bs rule: spec_rr_raw.cases) simp_all

lemma drop_two_bytes:
  assumes "idx + 1 < length data"
  shows "drop idx data = data ! idx # data ! (idx + 1) # drop (idx + 2) data"
proof -
  from assms have "drop idx data = data ! idx # drop (Suc idx) data"
    by (simp add: Cons_nth_drop_Suc)
  moreover from assms have "drop (Suc idx) data = data ! Suc idx # drop (Suc (Suc idx)) data"
    by (simp add: Cons_nth_drop_Suc)
  ultimately show ?thesis by simp
qed

lemma spec_rr_raw_drop:
  assumes "idx + 1 < length data"
  shows "spec_rr_raw (drop idx data) =
           from_bytes_little (slice data idx (idx + 2)) # spec_rr_raw (drop (idx + 2) data)"
  by (simp add: drop_two_bytes [OF assms] slice_def)

lemma spec_rr_raw_drop_end:
  "\<not> idx + 1 < length data \<Longrightarrow> spec_rr_raw (drop idx data) = []"
  by (rule spec_rr_raw_short) simp

lemma length_spec_rr_raw: "length (spec_rr_raw bs) = length bs div 2"
  by (induction bs rule: spec_rr_raw.induct) simp_all

lemma rr_loop_last_hr: "last_hr (rr_loop data idx s) = last_hr s"
proof (induction data idx s rule: rr_loop.induct)
  case (1 data idx s)
  show ?case
  proof (cases "idx + 1 < length data")
    case True
    with "1" show ?thesis by (simp add: rr_loop_more push_last_ecg_fields)
  next
    case False
    then show ?thesis by (simp add: rr_loop_done)
  qed
qed

lemma rr_loop_last_acc: "last_acc (rr_loop data idx s) = last_acc s"
proof (induction data idx s rule: rr_loop.induct)
  case (1 data idx s)
  show ?case
  proof (cases "idx + 1 < length data")
    case True
    with "1" show ?thesis by (simp add: rr_loop_more push_last_ecg_fields)
  next
    case False
    then show ?thesis by (simp add: rr_loop_done)
  qed
qed

lemma rr_loop_last_ecg: "last_ecg (rr_loop data idx s) = last_ecg s"
proof (induction data idx s rule: rr_loop.induct)
  case (1 data idx s)
  show ?case
  proof (cases "idx + 1 < length data")
    case True
    with "1" show ?thesis by (simp add: rr_loop_more push_last_ecg_fields)
  next
    case False
    then show ?thesis by (simp add: rr_loop_done)
  qed
qed

lemma rr_loop_busyvalue: "busyvalue (rr_loop data idx s) = busyvalue s"
proof (induction data idx s rule: rr_loop.induct)
  case (1 data idx s)
  show ?case
  proof (cases "idx + 1 < length data")
    case True
    with "1" show ?thesis by (simp add: rr_loop_more push_last_ecg_fields)
  next
    case False
    then show ?thesis by (simp add: rr_loop_done)
  qed
qed

lemma rr_loop_last_rri:
  "last_rri (rr_loop data idx s) =
     (if spec_rr_raw (drop idx data) = [] then last_rri s
      else rr_ms (last (spec_rr_raw (drop idx data))))"
proof (induction data idx s rule: rr_loop.induct)
  case (1 data idx s)
  show ?case
  proof (cases "idx + 1 < length data")
    case True
    with "1" show ?thesis
      by (simp add: rr_loop_more push_last_ecg_fields spec_rr_raw_drop rr_ms_def)
  next
    case False
    then show ?thesis by (simp add: rr_loop_done spec_rr_raw_drop_end)
  qed
qed

lemma rr_loop_outlet:
  "outlet (rr_loop data idx s) =
     outlet s @
     map (\<lambda>v. [carried_ecg s, resolved (last_hr s), resolved (rr_ms v)] @
               map resolved (last_acc s))
         (spec_rr_raw (drop idx data))"
proof (induction data idx s rule: rr_loop.induct)
  case (1 data idx s)
  show ?case
  proof (cases "idx + 1 < length data")
    case True
    with "1" show ?thesis
      by (simp add: rr_loop_more push_last_ecg_fields push_last_ecg_outlet spec_rr_raw_drop
          rr_ms_def output_vector_def carried_ecg_def)
  next
    case False
    then show ?thesis by (simp add: rr_loop_done spec_rr_raw_drop_end)
  qed
qed

subsection \<open>The heart-rate parser\<close>

lemma hrm_conv_returns:
  assumes "data \<noteq> []" and "hd data AND 0x01 \<noteq> 0 \<or> 2 \<le> length data"
  shows "hrm_conv data s =
           (Inr (),
            if hd data AND 0x10 \<noteq> 0
            then rr_loop data (1 + spec_hr_width (hd data))
                   (push_last_ecg (s\<lparr>last_hr := Num (of_int (spec_hr_value data))\<rparr>))
            else push_last_ecg (s\<lparr>last_hr := Num (of_int (spec_hr_value data))\<rparr>))"
proof (cases data)
  case Nil
  with assms show ?thesis by simp
next
  case (Cons flags rest)
  show ?thesis
  proof (cases "flags AND 0x01 = 0")
    case True
    with assms Cons obtain b rest' where rest: "rest = b # rest'"
      by (cases rest) auto
    with True Cons show ?thesis
      by (simp add: hrm_conv_def spec_hr_value_def spec_hr_width_def Let_def
          numeral_2_eq_2 [symmetric])
  next
    case False
    with Cons show ?thesis
      by (simp add: hrm_conv_def spec_hr_value_def spec_hr_width_def slice_def Let_def
          numeral_3_eq_3 [symmetric])
  qed
qed


lemma hrm_conv_last_hr:
  assumes "data \<noteq> []" and "hd data AND 0x01 \<noteq> 0 \<or> 2 \<le> length data"
  shows "last_hr (snd (hrm_conv data s)) = Num (of_int (spec_hr_value data))"
  by (simp add: hrm_conv_returns [OF assms] rr_loop_last_hr push_last_ecg_fields)

lemma hrm_conv_last_acc:
  assumes "data \<noteq> []" and "hd data AND 0x01 \<noteq> 0 \<or> 2 \<le> length data"
  shows "last_acc (snd (hrm_conv data s)) = last_acc s"
  by (simp add: hrm_conv_returns [OF assms] rr_loop_last_acc push_last_ecg_fields)

lemma hrm_conv_last_ecg:
  assumes "data \<noteq> []" and "hd data AND 0x01 \<noteq> 0 \<or> 2 \<le> length data"
  shows "last_ecg (snd (hrm_conv data s)) = last_ecg s"
  by (simp add: hrm_conv_returns [OF assms] rr_loop_last_ecg push_last_ecg_fields)

lemma hrm_conv_last_rri:
  assumes "data \<noteq> []" and "hd data AND 0x01 \<noteq> 0 \<or> 2 \<le> length data"
  shows "last_rri (snd (hrm_conv data s)) =
           (if spec_rr_list data = [] then last_rri s else rr_ms (last (spec_rr_list data)))"
  using assms(1)
  by (simp add: hrm_conv_returns [OF assms] rr_loop_last_rri push_last_ecg_fields
      spec_rr_list_def)

lemma hrm_conv_outlet:
  assumes "data \<noteq> []" and "hd data AND 0x01 \<noteq> 0 \<or> 2 \<le> length data"
  shows "outlet (snd (hrm_conv data s)) =
           outlet s @
           ([carried_ecg s, Num (of_int (spec_hr_value data)), resolved (last_rri s)] @
              map resolved (last_acc s)) #
           map (\<lambda>v. [carried_ecg s, Num (of_int (spec_hr_value data)), resolved (rr_ms v)] @
                     map resolved (last_acc s))
               (spec_rr_list data)"
  using assms(1)
  by (simp add: hrm_conv_returns [OF assms] rr_loop_outlet push_last_ecg_fields
      push_last_ecg_outlet spec_rr_list_def output_vector_def carried_ecg_def resolved_def)

subsection \<open>Heart-rate records\<close>

text \<open>
  C3. For a heart-rate payload that holds its HR value, byte 0 is the flags byte. The HR
  stored by \<open>hrm_conv\<close> is the byte at offset 1 when flags bit 0 is clear, and the
  little-endian value of the bytes at offsets 1 and 2 when it is set. The vectors pushed
  after the HR vector carry, in their RRI field, the RR list of the payload: empty when
  flags bit 4 is clear, and otherwise the consecutive 16-bit little-endian values after
  the HR value, up to a tail of fewer than 2 bytes, each raw value \<open>v\<close> as
  \<open>v / 1024 * 1000\<close>. The last of them stays in the RRI cache.
\<close>

theorem hrm_conv_decodes_record:
  assumes "data \<noteq> []" and "hd data AND 0x01 \<noteq> 0 \<or> 2 \<le> length data"
  shows "last_hr (snd (hrm_conv data s)) = Num (of_int (spec_hr_value data))
    \<and> (hd data AND 0x01 = 0 \<longrightarrow> spec_hr_value data = uint (data ! 1))
    \<and> (hd data AND 0x01 \<noteq> 0 \<and> 3 \<le> length data \<longrightarrow>
          spec_hr_value data = uint (data ! 1) + 256 * uint (data ! 2))
    \<and> map (\<lambda>vec. vec ! 2) (drop (Suc (length (outlet s))) (outlet (snd (hrm_conv data s))))
          = map (\<lambda>v. Num (of_int v / 1024 * 1000)) (spec_rr_list data)
    \<and> (hd data AND 0x10 = 0 \<longrightarrow> spec_rr_list data = [])
    \<and> (hd data AND 0x10 \<noteq> 0 \<longrightarrow>
          spec_rr_list data = spec_rr_raw (drop (if hd data AND 0x01 \<noteq> 0 then 3 else 2) data))
    \<and> last_rri (snd (hrm_conv data s))
          = (if spec_rr_list data = [] then last_rri s
             else Num (of_int (last (spec_rr_list data)) / 1024 * 1000))"
proof -
  from assms(1) obtain flags rest where data: "data = flags # rest"
    by (cases data) auto
  have narrow: "hd data AND 0x01 = 0 \<longrightarrow> spec_hr_value data = uint (data ! 1)"
  proof
    assume clear: "hd data AND 0x01 = 0"
    with assms(2) data obtain b rest' where "rest = b # rest'"
      by (cases rest) auto
    with clear data show "spec_hr_value data = uint (data ! 1)"
      by (simp add: spec_hr_value_def spec_hr_width_def)
  qed
  have wide: "hd data AND 0x01 \<noteq> 0 \<and> 3 \<le> length data \<longrightarrow>
      spec_hr_value data = uint (data ! 1) + 256 * uint (data ! 2)"
  proof
    assume set: "hd data AND 0x01 \<noteq> 0 \<and> 3 \<le> length data"
    with data obtain lo hi rest' where "rest = lo # hi # rest'"
      by (cases rest rule: spec_rr_raw.cases) auto
    with set data show "spec_hr_value data = uint (data ! 1) + 256 * uint (data ! 2)"
      by (simp add: spec_hr_value_def spec_hr_width_def)
  qed
  have rri: "map (\<lambda>vec. vec ! 2)
        (drop (Suc (length (outlet s))) (outlet (snd (hrm_conv data s))))
      = map (\<lambda>v. Num (of_int v / 1024 * 1000)) (spec_rr_list data)"
    by (simp add: hrm_conv_outlet [OF assms] rr_ms_def resolved_def o_def)
  have absent: "hd data AND 0x10 = 0 \<longrightarrow> spec_rr_list data = []"
    by (simp add: spec_rr_list_def)
  have present: "hd data AND 0x10 \<noteq> 0 \<longrightarrow>
      spec_rr_list data = spec_rr_raw (drop (if hd data AND 0x01 \<noteq> 0 then 3 else 2) data)"
    using data by (simp add: spec_rr_list_def spec_hr_width_def)
  have cache: "last_rri (snd (hrm_conv data s))
      = (if spec_rr_list data = [] then last_rri s
         else Num (of_int (last (spec_rr_list data)) / 1024 * 1000))"
    by (simp add: hrm_conv_last_rri [OF assms] rr_ms_def)
  from hrm_conv_last_hr [OF assms] narrow wide rri absent present cache
  show ?thesis by blast
qed

theorem hrm_conv_decodes_record_witness:
  "[0x11, 0x2C, 0x01, 0x00, 0x04] \<noteq> ([] :: byte list)
    \<and> 2 \<le> length [0x11, 0x2C, 0x01, 0x00, 0x04 :: byte]
    \<and> last_hr (snd (hrm_conv [0x11, 0x2C, 0x01, 0x00, 0x04] (connect_to_device new_app))) = Num 300
    \<and> map (\<lambda>vec. vec ! 2)
          (drop 1 (outlet (snd (hrm_conv [0x11, 0x2C, 0x01, 0x00, 0x04] (connect_to_device new_app)))))
        = [Num 1000]
    \<and> last_rri (snd (hrm_conv [0x11, 0x2C, 0x01, 0x00, 0x04] (connect_to_device new_app))) = Num 1000"
  using hrm_conv_decodes_record [of "[0x11, 0x2C, 0x01, 0x00, 0x04]" "connect_to_device new_app"]
  by (simp add: spec_hr_value_def spec_hr_width_def spec_rr_list_def connect_to_device_def new_app_def)

text \<open>
  C5. A heart-rate payload that holds its HR value makes \<open>hrm_conv\<close> push one vector
  for the HR value, with the carried ECG value, the new HR and the RRI cached so far,
  and after it one vector per RR value of the payload, in the order of the payload.
  For the payload 0x10, 0x3C, 0x0A, 0x00 the HR is 60, the RRI is 625/64 = 9.765625 ms,
  and two vectors are pushed: the HR vector, then the RR vector.
\<close>

theorem hrm_conv_emissions:
  assumes "data \<noteq> []" and "hd data AND 0x01 \<noteq> 0 \<or> 2 \<le> length data"
  shows "outlet (snd (hrm_conv data s)) =
           outlet s @
           ([carried_ecg s, Num (of_int (spec_hr_value data)), resolved (last_rri s)] @
              map resolved (last_acc s)) #
           map (\<lambda>v. [carried_ecg s, Num (of_int (spec_hr_value data)),
                      Num (of_int v / 1024 * 1000)] @ map resolved (last_acc s))
               (spec_rr_list data)
    \<and> length (outlet (snd (hrm_conv data s))) =
          length (outlet s) + 1 + length (spec_rr_list data)
    \<and> last_hr (snd (hrm_conv [0x10, 0x3C, 0x0A, 0x00] s)) = Num 60
    \<and> last_rri (snd (hrm_conv [0x10, 0x3C, 0x0A, 0x00] s)) = Num (625 / 64)
    \<and> \<bar>625 / 64 - 977 / 100\<bar> < (1 / 100 :: rat)
    \<and> outlet (snd (hrm_conv [0x10, 0x3C, 0x0A, 0x00] s)) =
          outlet s @
          [[carried_ecg s, Num 60, resolved (last_rri s)] @ map resolved (last_acc s),
           [carried_ecg s, Num 60, Num (625 / 64)] @ map resolved (last_acc s)]"
proof -
  have general: "outlet (snd (hrm_conv data s)) =
      outlet s @
      ([carried_ecg s, Num (of_int (spec_hr_value data)), resolved (last_rri s)] @
         map resolved (last_acc s)) #
      map (\<lambda>v. [carried_ecg s, Num (of_int (spec_hr_value data)),
                 Num (of_int v / 1024 * 1000)] @ map resolved (last_acc s))
          (spec_rr_list data)"
    by (simp add: hrm_conv_outlet [OF assms] rr_ms_def resolved_def)
  then have count: "length (outlet (snd (hrm_conv data s))) =
      length (outlet s) + 1 + length (spec_rr_list data)"
    by simp
  have ex: "[0x10, 0x3C, 0x0A, 0x00] \<noteq> ([] :: byte list)"
      "hd [0x10, 0x3C, 0x0A, 0x00 :: byte] AND 0x01 \<noteq> 0
        \<or> 2 \<le> length [0x10, 0x3C, 0x0A, 0x00 :: byte]"
    by simp_all
  have hr: "last_hr (snd (hrm_conv [0x10, 0x3C, 0x0A, 0x00] s)) = Num 60"
    by (simp add: hrm_conv_last_hr [OF ex] spec_hr_value_def spec_hr_width_def)
  have rri: "last_rri (snd (hrm_conv [0x10, 0x3C, 0x0A, 0x00] s)) = Num (625 / 64)"
    by (simp add: hrm_conv_last_rri [OF ex] spec_rr_list_def spec_hr_width_def rr_ms_def)
  have near: "\<bar>625 / 64 - 977 / 100\<bar> < (1 / 100 :: rat)"
    by simp
  have ticks: "outlet (snd (hrm_conv [0x10, 0x3C, 0x0A, 0x00] s)) =
      outlet s @
      [[carried_ecg s, Num 60, resolved (last_rri s)] @ map resolved (last_acc s),
       [carried_ecg s, Num 60, Num (625 / 64)] @ map resolved (last_acc s)]"
    by (simp add: hrm_conv_outlet [OF ex] spec_hr_value_def spec_rr_list_def
        spec_hr_width_def rr_ms_def resolved_def)
  from general count hr rri near ticks show ?thesis by blast
qed

theorem hrm_conv_emissions_witness:
  "[0x00, 0x48] \<noteq> ([] :: byte list)
    \<and> 2 \<le> length [0x00, 0x48 :: byte]
    \<and> outlet (snd (hrm_conv [0x00, 0x48] (connect_to_device new_app))) =
         [[Num 0, Num 72, Num 0, Num 0, Num 0, Num 0]]
    \<and> length (outlet (snd (hrm_conv [0x00, 0x48] (connect_to_device new_app)))) = 1"
  using hrm_conv_emissions [of "[0x00, 0x48]" "connect_to_device new_app"]
  by (simp add: spec_hr_value_def spec_hr_width_def spec_rr_list_def connect_to_device_def new_app_def
      carried_ecg_def resolved_def)



subsection \<open>Invariants carried through the parsers\<close>

lemma ecg_loop_inv:
  assumes "\<And>r s. P s \<Longrightarrow> P (push (Num r) s)" and "P s"
  shows "P (ecg_loop payload offs s)"
  using assms(2) by (induction offs arbitrary: s) (simp_all add: assms(1))

lemma acc_loop_inv:
  assumes step: "\<And>x y z s. P s \<Longrightarrow> P (push_last_ecg (s\<lparr>last_acc := [Num x, Num y, Num z]\<rparr>))"
    and "P s"
  shows "P (snd (acc_loop payload offs s))"
  using assms(2)
proof (induction offs arbitrary: s)
  case Nil
  then show ?case by simp
next
  case (Cons off offs)
  show ?case
  proof (cases "unpack_from_hhh payload off")
    case (Inl e)
    with Cons.prems show ?thesis by simp
  next
    case (Inr xyz)
    obtain x y z where "xyz = (x, y, z)" by (cases xyz) auto
    with Inr Cons.prems show ?thesis
      by (simp add: Cons.IH step)
  qed
qed

lemma rr_loop_inv:
  assumes step: "\<And>r s. P s \<Longrightarrow> P (push_last_ecg (s\<lparr>last_rri := Num r\<rparr>))"
    and "P s"
  shows "P (rr_loop data idx s)"
  using assms(2)
proof (induction data idx s rule: rr_loop.induct)
  case (1 data idx s)
  show ?case
  proof (cases "idx + 1 < length data")
    case True
    with "1" show ?thesis by (simp add: rr_loop_more step)
  next
    case False
    with "1.prems" show ?thesis by (simp add: rr_loop_done)
  qed
qed

lemma pmd_data_conv_inv:
  assumes "P s"
    and busy: "\<And>s. P s \<Longrightarrow> P (update_busy s)"
    and ecg: "\<And>r s. is_ecg_frame (Pmd data) \<Longrightarrow> P s \<Longrightarrow> P (push (Num r) s)"
    and acc: "\<And>x y z s. is_acc_frame (Pmd data) \<Longrightarrow> P s \<Longrightarrow>
                 P (push_last_ecg (s\<lparr>last_acc := [Num x, Num y, Num z]\<rparr>))"
  shows "P (snd (pmd_data_conv data s))"
proof (cases data)
  case Nil
  with assms(1) show ?thesis by (simp add: pmd_data_conv_def)
next
  case (Cons hdr rest)
  consider (ecg) "hdr = 0x00" | (acc) "hdr \<noteq> 0x00" "hdr = 0x01" | (other) "hdr \<noteq> 0x00" "hdr \<noteq> 0x01"
    by blast
  then show ?thesis
  proof cases
    case ecg
    with Cons have frame: "is_ecg_frame (Pmd data)" by simp
    have "P (ecg_loop (drop 10 data) (py_range 0 (length (drop 10 data)) 3) s)"
    proof (rule ecg_loop_inv)
      fix r s'
      assume "P s'"
      with frame show "P (push (Num r) s')" by (rule assms(3))
    next
      show "P s" by fact
    qed
    with Cons ecg busy show ?thesis by (simp add: pmd_data_conv_def)
  next
    case acc
    with Cons have frame: "is_acc_frame (Pmd data)" by simp
    have *: "P (snd (acc_loop (drop 10 data) (py_range 0 (length (drop 10 data)) 6) s))"
    proof (rule acc_loop_inv)
      fix x y z s'
      assume "P s'"
      with frame show "P (push_last_ecg (s'\<lparr>last_acc := [Num x, Num y, Num z]\<rparr>))"
        by (rule assms(4))
    next
      show "P s" by fact
    qed
    obtain r s' where r: "acc_loop (drop 10 data) (py_range 0 (length (drop 10 data)) 6) s = (r, s')"
      by (cases "acc_loop (drop 10 data) (py_range 0 (length (drop 10 data)) 6) s") auto
    with * have "P s'" by simp
    with Cons acc r busy show ?thesis
      by (cases r) (simp_all add: pmd_data_conv_def)
  next
    case other
    with Cons assms(1) busy show ?thesis by (simp add: pmd_data_conv_def)
  qed
qed

lemma hrm_conv_inv:
  assumes "P s"
    and hr: "\<And>r s. P s \<Longrightarrow> P (push_last_ecg (s\<lparr>last_hr := Num r\<rparr>))"
    and rr: "\<And>r s. P s \<Longrightarrow> P (push_last_ecg (s\<lparr>last_rri := Num r\<rparr>))"
  shows "P (snd (hrm_conv data s))"
proof (cases "data \<noteq> [] \<and> (hd data AND 0x01 \<noteq> 0 \<or> 2 \<le> length data)")
  case True
  then have ok: "data \<noteq> []" "hd data AND 0x01 \<noteq> 0 \<or> 2 \<le> length data" by simp_all
  have first: "P (push_last_ecg (s\<lparr>last_hr := Num (of_int (spec_hr_value data))\<rparr>))"
    using assms(1) by (rule hr)
  have "P (rr_loop data (1 + spec_hr_width (hd data))
             (push_last_ecg (s\<lparr>last_hr := Num (of_int (spec_hr_value data))\<rparr>)))"
    using rr first by (rule rr_loop_inv)
  with first show ?thesis
    by (simp add: hrm_conv_returns [OF ok])
next
  case False
  have "hrm_conv data s = (Inl IndexError, s)"
  proof (cases data)
    case Nil
    then show ?thesis by (simp add: hrm_conv_def)
  next
    case (Cons flags rest)
    with False have "flags AND 0x01 = 0" and "rest = []"
      by (cases rest; simp)+
    with Cons show ?thesis by (simp add: hrm_conv_def)
  qed
  with assms(1) show ?thesis by simp
qed

lemma fold_notify_inv:
  assumes "\<And>n s. n \<in> set ns \<Longrightarrow> P s \<Longrightarrow> P (notify n s)" and "P s"
  shows "P (fold notify ns s)"
  using assms by (induction ns arbitrary: s) simp_all

subsection \<open>Steps that keep the invariants\<close>

lemma isnan_resolved: "\<not> isnan (resolved x)"
  by (cases x) (simp_all add: resolved_def)

lemma resolved_id: "\<not> isnan x \<Longrightarrow> resolved x = x"
  by (simp add: resolved_def)

lemma numeric_push:
  assumes "numeric s" and "\<not> isnan e"
  shows "numeric (push e s)"
  using assms
  by (cases e)
    (simp_all add: numeric_def push_fields push_outlet output_vector_def isnan_resolved
      list_all_iff)

lemma numeric_push_last_ecg: "numeric s \<Longrightarrow> numeric (push_last_ecg s)"
proof -
  assume s: "numeric s"
  show ?thesis
  proof (cases "last_ecg s")
    case None
    with s show ?thesis by (simp add: push_last_ecg_def numeric_push)
  next
    case (Some e)
    with s have "\<not> isnan e" by (cases e) (simp_all add: numeric_def)
    with s Some show ?thesis by (simp add: push_last_ecg_def numeric_push)
  qed
qed

lemma numeric_last_hr: "numeric s \<Longrightarrow> numeric (s\<lparr>last_hr := Num r\<rparr>)"
  by (simp add: numeric_def)

lemma numeric_last_rri: "numeric s \<Longrightarrow> numeric (s\<lparr>last_rri := Num r\<rparr>)"
  by (simp add: numeric_def)

lemma numeric_last_acc: "numeric s \<Longrightarrow> numeric (s\<lparr>last_acc := [Num x, Num y, Num z]\<rparr>)"
  by (simp add: numeric_def)

lemma numeric_update_busy: "numeric s \<Longrightarrow> numeric (update_busy s)"
  by (simp add: numeric_def update_busy_def)

lemma numeric_notify: "numeric s \<Longrightarrow> numeric (notify n s)"
proof (cases n)
  case (Pmd data)
  assume "numeric s"
  then have "numeric (snd (pmd_data_conv data s))"
    by (rule pmd_data_conv_inv)
      (simp_all add: numeric_update_busy numeric_push numeric_push_last_ecg numeric_last_acc)
  with Pmd show ?thesis by simp
next
  case (Hrm data)
  assume "numeric s"
  then have "numeric (snd (hrm_conv data s))"
    by (rule hrm_conv_inv)
      (simp_all add: numeric_push_last_ecg numeric_last_hr numeric_last_rri)
  with Hrm show ?thesis by simp
qed

lemma numeric_connect_to_device:
  assumes "last_ecg s \<noteq> Some NaN" and "last_ecg s \<noteq> Some (Num 0)"
  shows "numeric (connect_to_device s)"
  using assms by (simp add: numeric_def connect_to_device_def)

lemma numeric_session:
  assumes "last_ecg s \<noteq> Some NaN" and "last_ecg s \<noteq> Some (Num 0)"
  shows "numeric (session ns s)"
  unfolding session_def
  by (rule fold_notify_inv) (simp_all add: numeric_notify numeric_connect_to_device assms)

lemma last_ecg_sessions:
  "last_ecg (fold session earlier new_app) \<noteq> Some NaN
   \<and> last_ecg (fold session earlier new_app) \<noteq> Some (Num 0)"
proof (induction earlier rule: rev_induct)
  case Nil
  show ?case by (simp add: new_app_def)
next
  case (snoc ns earlier)
  then have "numeric (session ns (fold session earlier new_app))"
    by (intro numeric_session) simp_all
  then show ?case by (simp add: numeric_def)
qed

lemma numeric_stream: "numeric (stream earlier ns)"
  unfolding stream_def using last_ecg_sessions [of earlier]
  by (intro numeric_session) simp_all

lemma hr_idle_push: "hr_idle s \<Longrightarrow> hr_idle (push e s)"
  by (simp add: hr_idle_def push_fields push_outlet output_vector_def resolved_def)

lemma hr_idle_push_last_ecg: "hr_idle s \<Longrightarrow> hr_idle (push_last_ecg s)"
  by (simp add: push_last_ecg_def hr_idle_push split: option.splits)

lemma hr_idle_last_acc: "hr_idle s \<Longrightarrow> hr_idle (s\<lparr>last_acc := v\<rparr>)"
  by (simp add: hr_idle_def)

lemma hr_idle_update_busy: "hr_idle s \<Longrightarrow> hr_idle (update_busy s)"
  by (simp add: hr_idle_def update_busy_def)

lemma hr_idle_pmd: "hr_idle s \<Longrightarrow> hr_idle (snd (pmd_data_conv data s))"
  by (rule pmd_data_conv_inv)
    (simp_all add: hr_idle_update_busy hr_idle_push hr_idle_push_last_ecg hr_idle_last_acc)

lemma acc_idle_push: "acc_idle s \<Longrightarrow> acc_idle (push e s)"
  by (simp add: acc_idle_def push_fields push_outlet output_vector_def resolved_def)

lemma acc_idle_push_last_ecg: "acc_idle s \<Longrightarrow> acc_idle (push_last_ecg s)"
  by (simp add: push_last_ecg_def acc_idle_push split: option.splits)

lemma acc_idle_last_hr: "acc_idle s \<Longrightarrow> acc_idle (s\<lparr>last_hr := v\<rparr>)"
  by (simp add: acc_idle_def)

lemma acc_idle_last_rri: "acc_idle s \<Longrightarrow> acc_idle (s\<lparr>last_rri := v\<rparr>)"
  by (simp add: acc_idle_def)

lemma acc_idle_update_busy: "acc_idle s \<Longrightarrow> acc_idle (update_busy s)"
  by (simp add: acc_idle_def update_busy_def)

lemma acc_idle_notify:
  assumes "acc_idle s" and "\<not> is_acc_frame n"
  shows "acc_idle (notify n s)"
proof (cases n)
  case (Pmd data)
  have "acc_idle (snd (pmd_data_conv data s))"
  proof (rule pmd_data_conv_inv)
    show "acc_idle s" by fact
  next
    fix x y z s'
    assume "is_acc_frame (Pmd data)"
    with assms(2) Pmd
    show "acc_idle (push_last_ecg (s'\<lparr>last_acc := [Num x, Num y, Num z]\<rparr>))"
      by simp
  qed (simp_all add: acc_idle_update_busy acc_idle_push)
  with Pmd show ?thesis by simp
next
  case (Hrm data)
  from assms(1) have "acc_idle (snd (hrm_conv data s))"
    by (rule hrm_conv_inv)
      (simp_all add: acc_idle_push_last_ecg acc_idle_last_hr acc_idle_last_rri)
  with Hrm show ?thesis by simp
qed

lemma carries_push_last_ecg: "carries e n s \<Longrightarrow> carries e n (push_last_ecg s)"
  by (auto simp: carries_def push_last_ecg_fields push_last_ecg_outlet output_vector_def
      carried_ecg_def)

lemma carries_last_hr: "carries e n s \<Longrightarrow> carries e n (s\<lparr>last_hr := v\<rparr>)"
  by (simp add: carries_def)

lemma carries_last_rri: "carries e n s \<Longrightarrow> carries e n (s\<lparr>last_rri := v\<rparr>)"
  by (simp add: carries_def)

lemma carries_last_acc: "carries e n s \<Longrightarrow> carries e n (s\<lparr>last_acc := v\<rparr>)"
  by (simp add: carries_def)

lemma carries_update_busy: "carries e n s \<Longrightarrow> carries e n (update_busy s)"
  by (simp add: carries_def update_busy_def)

lemma carries_notify:
  assumes "carries e k s" and "\<not> is_ecg_frame n"
  shows "carries e k (notify n s)"
proof (cases n)
  case (Pmd data)
  have "carries e k (snd (pmd_data_conv data s))"
  proof (rule pmd_data_conv_inv)
    show "carries e k s" by fact
  next
    fix r s'
    assume "is_ecg_frame (Pmd data)"
    with assms(2) Pmd show "carries e k (push (Num r) s')"
      by simp
  qed (simp_all add: carries_update_busy carries_push_last_ecg carries_last_acc)
  with Pmd show ?thesis by simp
next
  case (Hrm data)
  from assms(1) have "carries e k (snd (hrm_conv data s))"
    by (rule hrm_conv_inv)
      (simp_all add: carries_push_last_ecg carries_last_hr carries_last_rri)
  with Hrm show ?thesis by simp
qed

lemma carries_start: "carries (last_ecg s) (length (outlet s)) s"
  by (simp add: carries_def)

lemma carries_fold:
  assumes "\<forall>n \<in> set ns. \<not> is_ecg_frame n"
  shows "carries (last_ecg s) (length (outlet s)) (fold notify ns s)"
proof (rule fold_notify_inv)
  fix n t
  assume "n \<in> set ns" and "carries (last_ecg s) (length (outlet s)) t"
  with assms show "carries (last_ecg s) (length (outlet s)) (notify n t)"
    by (simp add: carries_notify)
next
  show "carries (last_ecg s) (length (outlet s)) s" by (rule carries_start)
qed

subsection \<open>ECG frames\<close>

lemma py_range_multiple:
  "0 < step \<Longrightarrow> py_range a (a + step * n) step = map (\<lambda>i. a + step * i) [0..<n]"
proof (induction n arbitrary: a)
  case 0
  show ?case by (simp add: py_range_done)
next
  case (Suc n)
  from Suc.prems have "py_range a (a + step * Suc n) step
      = a # py_range (a + step) (a + step + step * n) step"
    by (simp add: py_range_more add.assoc)
  also have "\<dots> = a # map (\<lambda>i. a + step + step * i) [0..<n]"
    by (simp add: Suc.IH [OF Suc.prems])
  also have "\<dots> = map (\<lambda>i. a + step * i) [0..<Suc n]"
    by (simp add: upt_conv_Cons map_Suc_upt [symmetric] del: upt_Suc add: add.assoc)
  finally show ?case .
qed

lemma ecg_loop_outlet:
  "outlet (ecg_loop payload offs s) =
     outlet s @
     map (\<lambda>off. [Num (of_int (from_bytes_little_signed (slice payload off (off + 3)))),
                 resolved (last_hr s), resolved (last_rri s)] @ map resolved (last_acc s))
         offs"
  by (induction offs arbitrary: s) (simp_all add: push_outlet push_fields output_vector_def)

lemma ecg_loop_last_hr: "last_hr (ecg_loop payload offs s) = last_hr s"
  by (induction offs arbitrary: s) (simp_all add: push_fields)

lemma ecg_loop_last_rri: "last_rri (ecg_loop payload offs s) = last_rri s"
  by (induction offs arbitrary: s) (simp_all add: push_fields)

lemma ecg_loop_last_acc: "last_acc (ecg_loop payload offs s) = last_acc s"
  by (induction offs arbitrary: s) (simp_all add: push_fields)

lemma three_entries: "length xs = 3 \<Longrightarrow> xs = [xs ! 0, xs ! 1, xs ! 2]"
proof -
  assume len: "length xs = 3"
  then obtain a ys where xs: "xs = a # ys" by (cases xs) auto
  with len obtain b zs where ys: "ys = b # zs" by (cases ys) auto
  with len xs obtain c where "zs = [c]" by (cases zs) auto
  with xs ys show ?thesis by simp
qed

lemma numeric_acc_vals:
  assumes "numeric s"
  shows "map resolved (last_acc s) = [last_acc s ! 0, last_acc s ! 1, last_acc s ! 2]"
proof -
  from assms have "map resolved (last_acc s) = map (\<lambda>x. x) (last_acc s)"
    by (intro map_cong) (simp_all add: numeric_def list_all_iff resolved_id)
  moreover from assms have "length (last_acc s) = 3"
    by (simp add: numeric_def)
  ultimately show ?thesis
    using three_entries [of "last_acc s"] by simp
qed

text \<open>
  C6. In a state reached from a new connection by any notifications, an ECG frame with
  9 metadata bytes and 30 sample bytes returns normally and appends exactly 10 vectors
  to the outlet: the i-th has the signed little-endian value of the i-th group of 3
  sample bytes as its ECG entry and the cached HR, RRI and ACC values, which the frame
  does not change, in the other entries.
\<close>

theorem ecg_frame_ten_samples:
  assumes "length meta = 9" and "length samples = 30" and "s = stream earlier ns"
  shows "fst (pmd_data_conv (0x00 # meta @ samples) s) = Inr ()
    \<and> outlet (snd (pmd_data_conv (0x00 # meta @ samples) s)) =
         outlet s @
         map (\<lambda>i. [Num (of_int (from_bytes_little_signed (take 3 (drop (3 * i) samples)))),
                    last_hr s, last_rri s, last_acc s ! 0, last_acc s ! 1, last_acc s ! 2])
             [0..<10]
    \<and> length (outlet (snd (pmd_data_conv (0x00 # meta @ samples) s))) = length (outlet s) + 10
    \<and> last_hr (snd (pmd_data_conv (0x00 # meta @ samples) s)) = last_hr s
    \<and> last_rri (snd (pmd_data_conv (0x00 # meta @ samples) s)) = last_rri s
    \<and> last_acc (snd (pmd_data_conv (0x00 # meta @ samples) s)) = last_acc s"
proof -
  from assms(3) have num: "numeric s" by (simp add: numeric_stream)
  have offs: "py_range 0 30 3 = map (\<lambda>i. 3 * i) [0..<10]"
    using py_range_multiple [of 3 0 10] by simp
  from assms(1,2) have conv: "pmd_data_conv (0x00 # meta @ samples) s =
      (Inr (), update_busy (ecg_loop samples (map (\<lambda>i. 3 * i) [0..<10]) s))"
    by (simp add: pmd_data_conv_def offs)
  from num have hr: "resolved (last_hr s) = last_hr s"
    and rri: "resolved (last_rri s) = last_rri s"
    by (simp_all add: numeric_def resolved_id)
  have out: "outlet (snd (pmd_data_conv (0x00 # meta @ samples) s)) =
      outlet s @
      map (\<lambda>i. [Num (of_int (from_bytes_little_signed (take 3 (drop (3 * i) samples)))),
                 last_hr s, last_rri s, last_acc s ! 0, last_acc s ! 1, last_acc s ! 2])
          [0..<10]"
    unfolding conv
    by (simp add: update_busy_def ecg_loop_outlet hr rri numeric_acc_vals [OF num] slice_def
        o_def del: upt_Suc)
  then have count: "length (outlet (snd (pmd_data_conv (0x00 # meta @ samples) s)))
      = length (outlet s) + 10"
    by simp
  have fields: "last_hr (snd (pmd_data_conv (0x00 # meta @ samples) s)) = last_hr s"
      "last_rri (snd (pmd_data_conv (0x00 # meta @ samples) s)) = last_rri s"
      "last_acc (snd (pmd_data_conv (0x00 # meta @ samples) s)) = last_acc s"
    unfolding conv
    by (simp_all add: update_busy_def ecg_loop_last_hr ecg_loop_last_rri ecg_loop_last_acc)
  from conv out count fields show ?thesis by simp
qed

theorem ecg_frame_ten_samples_witness:
  "length [0, 0, 0, 0, 0, 0, 0, 0, 0 :: byte] = 9
    \<and> length [1, 0, 0, 2, 0, 0, 3, 0, 0, 4, 0, 0, 5, 0, 0, 6, 0, 0, 7, 0, 0, 8, 0, 0,
               9, 0, 0, 0xFF, 0xFF, 0xFF :: byte] = 30
    \<and> outlet (snd (pmd_data_conv
         (0x00 # [0, 0, 0, 0, 0, 0, 0, 0, 0] @
            [1, 0, 0, 2, 0, 0, 3, 0, 0, 4, 0, 0, 5, 0, 0, 6, 0, 0, 7, 0, 0, 8, 0, 0,
             9, 0, 0, 0xFF, 0xFF, 0xFF])
         (stream [] [Hrm [0x00, 0x48]]))) =
       outlet (stream [] [Hrm [0x00, 0x48]]) @
       map (\<lambda>e. [Num e, last_hr (stream [] [Hrm [0x00, 0x48]]),
                  last_rri (stream [] [Hrm [0x00, 0x48]]),
                  last_acc (stream [] [Hrm [0x00, 0x48]]) ! 0,
                  last_acc (stream [] [Hrm [0x00, 0x48]]) ! 1,
                  last_acc (stream [] [Hrm [0x00, 0x48]]) ! 2])
           [1, 2, 3, 4, 5, 6, 7, 8, 9, - 1]"
proof -
  have idx: "[0..<10] = [0, 1, 2, 3, 4, 5, 6, 7, 8, 9 :: nat]"
    by (simp add: upt_conv_Cons)
  show ?thesis
    using ecg_frame_ten_samples [of "[0, 0, 0, 0, 0, 0, 0, 0, 0]"
      "[1, 0, 0, 2, 0, 0, 3, 0, 0, 4, 0, 0, 5, 0, 0, 6, 0, 0, 7, 0, 0, 8, 0, 0,
        9, 0, 0, 0xFF, 0xFF, 0xFF]" "stream [] [Hrm [0x00, 0x48]]" "[]" "[Hrm [0x00, 0x48]]"]
    unfolding idx
    by (simp add: from_bytes_little_signed_def)
qed

subsection \<open>Vectors handed to the outlet\<close>

lemma hr_idle_session:
  assumes "\<forall>n \<in> set ns. \<not> is_hrm n"
  shows "hr_idle (session ns s)"
  unfolding session_def
proof (rule fold_notify_inv)
  fix n t
  assume "n \<in> set ns" and idle: "hr_idle t"
  with assms obtain data where "n = Pmd data" by (cases n) auto
  with idle show "hr_idle (notify n t)" by (simp add: hr_idle_pmd)
next
  show "hr_idle (connect_to_device s)"
    by (simp add: hr_idle_def connect_to_device_def)
qed

lemma hr_idle_stream:
  assumes "\<forall>n \<in> set ns. \<not> is_hrm n"
  shows "hr_idle (stream earlier ns)"
  unfolding stream_def using assms by (rule hr_idle_session)

lemma acc_idle_session:
  assumes "\<forall>n \<in> set ns. \<not> is_acc_frame n"
  shows "acc_idle (session ns s)"
  unfolding session_def
proof (rule fold_notify_inv)
  fix n t
  assume "n \<in> set ns" and "acc_idle t"
  with assms show "acc_idle (notify n t)" by (simp add: acc_idle_notify)
next
  show "acc_idle (connect_to_device s)"
    by (simp add: acc_idle_def connect_to_device_def)
qed

lemma acc_idle_stream:
  assumes "\<forall>n \<in> set ns. \<not> is_acc_frame n"
  shows "acc_idle (stream earlier ns)"
  unfolding stream_def using assms by (rule acc_idle_session)

lemma carries_session:
  assumes "last_ecg s = None" and "\<forall>n \<in> set ns. \<not> is_ecg_frame n"
  shows "carries None 0 (session ns s)"
  using carries_fold [OF assms(2), of "connect_to_device s"] assms(1)
  by (simp add: session_def connect_to_device_def)

lemma last_ecg_absent:
  assumes "\<forall>n \<in> set (concat earlier). \<not> is_ecg_frame n"
  shows "last_ecg (fold session earlier new_app) = None"
  using assms
proof (induction earlier rule: rev_induct)
  case Nil
  show ?case by (simp add: new_app_def)
next
  case (snoc ns earlier)
  then have "carries None 0 (session ns (fold session earlier new_app))"
    by (intro carries_session) simp_all
  then show ?case by (simp add: carries_def)
qed

text \<open>
  C4. An application that stored the ECG value 5 in one session and is connected again:
  the first heart-rate notification of the new session, before any ECG frame of that
  session, is pushed with ECG entry 5, where the same notification in a first session
  is pushed with ECG entry 0. \<open>connect_to_device\<close> gives the HR, RRI and ACC caches
  their initial 0 again and leaves \<open>last_ecg\<close>. The rest holds in every session: each
  vector handed to the outlet has exactly 6 entries and none is NaN, the assembler
  builds its vector in the order ECG, HR, RRI, AccX, AccY, AccZ, HR and RRI are 0 in
  every vector while the session has had no heart-rate notification, the ACC entries
  are 0 while it has had no ACC frame, and ECG is 0 while no session of the
  application has had an ECG frame.
\<close>

theorem stale_ecg_after_reconnect:
  "outlet (stream [[Pmd [0x00, 0, 0, 0, 0, 0, 0, 0, 0, 0, 0x05, 0x00, 0x00]]] [Hrm [0x00, 0x48]]) =
     [[Num 5, Num 72, Num 0, Num 0, Num 0, Num 0]]
    \<and> outlet (stream [] [Hrm [0x00, 0x48]]) = [[Num 0, Num 72, Num 0, Num 0, Num 0, Num 0]]
    \<and> (\<forall>vec \<in> set (outlet (stream earlier ns)).
          length vec = 6 \<and> (\<forall>x \<in> set vec. \<not> isnan x))
    \<and> outlet (push ecg (stream earlier ns)) =
         outlet (stream earlier ns) @
         [[ecg, last_hr (stream earlier ns), last_rri (stream earlier ns),
           last_acc (stream earlier ns) ! 0, last_acc (stream earlier ns) ! 1,
           last_acc (stream earlier ns) ! 2]]
    \<and> ((\<forall>n \<in> set ns. \<not> is_hrm n) \<longrightarrow>
          (\<forall>vec \<in> set (outlet (stream earlier ns)). vec ! 1 = Num 0 \<and> vec ! 2 = Num 0))
    \<and> ((\<forall>n \<in> set ns. \<not> is_acc_frame n) \<longrightarrow>
          (\<forall>vec \<in> set (outlet (stream earlier ns)).
              vec ! 3 = Num 0 \<and> vec ! 4 = Num 0 \<and> vec ! 5 = Num 0))
    \<and> ((\<forall>n \<in> set (concat earlier @ ns). \<not> is_ecg_frame n) \<longrightarrow>
          (\<forall>vec \<in> set (outlet (stream earlier ns)). vec ! 0 = Num 0))"
proof -
  have stale:
    "outlet (stream [[Pmd [0x00, 0, 0, 0, 0, 0, 0, 0, 0, 0, 0x05, 0x00, 0x00]]] [Hrm [0x00, 0x48]]) =
       [[Num 5, Num 72, Num 0, Num 0, Num 0, Num 0]]"
    by (simp add: stream_def session_def connect_to_device_def new_app_def pmd_data_conv_def
        py_range_more py_range_done update_busy_def push_def push_last_ecg_def hrm_conv_def
        slice_def from_bytes_little_signed_def)
  have first: "outlet (stream [] [Hrm [0x00, 0x48]]) = [[Num 0, Num 72, Num 0, Num 0, Num 0, Num 0]]"
    by (simp add: stream_def session_def connect_to_device_def new_app_def push_def
        push_last_ecg_def hrm_conv_def)
  have num: "numeric (stream earlier ns)" by (rule numeric_stream)
  then have all: "\<forall>vec \<in> set (outlet (stream earlier ns)).
      length vec = 6 \<and> (\<forall>x \<in> set vec. \<not> isnan x)"
    by (simp add: numeric_def list_all_iff)
  from num have build: "outlet (push ecg (stream earlier ns)) =
      outlet (stream earlier ns) @
      [[ecg, last_hr (stream earlier ns), last_rri (stream earlier ns),
        last_acc (stream earlier ns) ! 0, last_acc (stream earlier ns) ! 1,
        last_acc (stream earlier ns) ! 2]]"
    by (simp add: push_outlet output_vector_def numeric_acc_vals resolved_id numeric_def)
  have hr: "(\<forall>n \<in> set ns. \<not> is_hrm n) \<longrightarrow>
      (\<forall>vec \<in> set (outlet (stream earlier ns)). vec ! 1 = Num 0 \<and> vec ! 2 = Num 0)"
    using hr_idle_stream [of ns earlier] by (simp add: hr_idle_def list_all_iff)
  have acc: "(\<forall>n \<in> set ns. \<not> is_acc_frame n) \<longrightarrow>
      (\<forall>vec \<in> set (outlet (stream earlier ns)).
          vec ! 3 = Num 0 \<and> vec ! 4 = Num 0 \<and> vec ! 5 = Num 0)"
    using acc_idle_stream [of ns earlier] by (simp add: acc_idle_def list_all_iff)
  have ecg: "(\<forall>n \<in> set (concat earlier @ ns). \<not> is_ecg_frame n) \<longrightarrow>
      (\<forall>vec \<in> set (outlet (stream earlier ns)). vec ! 0 = Num 0)"
  proof
    assume none: "\<forall>n \<in> set (concat earlier @ ns). \<not> is_ecg_frame n"
    then have "last_ecg (fold session earlier new_app) = None"
      by (intro last_ecg_absent) simp
    moreover from none have "\<forall>n \<in> set ns. \<not> is_ecg_frame n" by simp
    ultimately have "carries None 0 (stream earlier ns)"
      unfolding stream_def by (rule carries_session)
    then show "\<forall>vec \<in> set (outlet (stream earlier ns)). vec ! 0 = Num 0"
      by (simp add: carries_def list_all_iff)
  qed
  from stale first all build hr acc ecg show ?thesis by blast
qed

theorem stale_ecg_after_reconnect_witness:
  "list_all (\<lambda>n. \<not> is_hrm n)
      [Pmd [0x01, 0, 0, 0, 0, 0, 0, 0, 0, 0, 1, 0, 2, 0, 3, 0], Pmd [0x07]]
    \<and> list_all (\<lambda>n. \<not> is_ecg_frame n)
      (concat [[Hrm [0x00, 0x48]]] @
       [Pmd [0x01, 0, 0, 0, 0, 0, 0, 0, 0, 0, 1, 0, 2, 0, 3, 0], Pmd [0x07]])
    \<and> list_all (\<lambda>vec. length vec = 6 \<and> list_all (\<lambda>x. \<not> isnan x) vec
                      \<and> vec ! 0 = Num 0 \<and> vec ! 1 = Num 0 \<and> vec ! 2 = Num 0)
        (outlet (stream [[Hrm [0x00, 0x48]]]
           [Pmd [0x01, 0, 0, 0, 0, 0, 0, 0, 0, 0, 1, 0, 2, 0, 3, 0], Pmd [0x07]]))"
  using stale_ecg_after_reconnect
    [of "[[Hrm [0x00, 0x48]]]"
        "[Pmd [0x01, 0, 0, 0, 0, 0, 0, 0, 0, 0, 1, 0, 2, 0, 3, 0], Pmd [0x07]]"]
  by (simp add: list_all_iff)

subsection \<open>The carried ECG value\<close>

text \<open>
  C9. \<open>push\<close> stores its argument in \<open>last_ecg\<close> exactly when the argument is neither
  NaN nor 0. An ECG frame with the single sample 0 pushes a vector with ECG entry 0 and
  leaves \<open>last_ecg\<close> as it was; in every state reached from a new connection a stored
  \<open>last_ecg\<close> is not 0. Every vector pushed by the heart-rate notifications, ACC frames
  and frames of unknown type that follow has the earlier \<open>last_ecg\<close>, or 0 when there
  is none, as its ECG entry.
\<close>

theorem zero_ecg_sample_not_carried:
  assumes "length meta = 9"
    and "s1 = snd (pmd_data_conv (0x00 # meta @ [0x00, 0x00, 0x00]) s)"
    and "list_all (\<lambda>n. \<not> is_ecg_frame n) ns"
  shows "last_ecg (push ecg s) = (if \<not> isnan ecg \<and> ecg \<noteq> Num 0 then Some ecg else last_ecg s)
    \<and> outlet s1 =
         outlet s @ [[Num 0, resolved (last_hr s), resolved (last_rri s)] @
                     map resolved (last_acc s)]
    \<and> last_ecg s1 = last_ecg s
    \<and> list_all (\<lambda>vec. vec ! 0 = (case last_ecg s of Some e \<Rightarrow> e | None \<Rightarrow> Num 0))
         (drop (length (outlet s1)) (outlet (fold notify ns s1)))
    \<and> last_ecg (stream earlier ms) \<noteq> Some (Num 0)"
proof -
  have offs: "py_range 0 (length [0x00, 0x00, 0x00 :: byte]) 3 = [0]"
    by (simp add: py_range_more py_range_done)
  from assms(1) have payload: "drop 10 (0x00 # meta @ [0x00, 0x00, 0x00]) = [0x00, 0x00, 0x00 :: byte]"
    by simp
  have "pmd_data_conv (0x00 # meta @ [0x00, 0x00, 0x00]) s =
      (Inr (), update_busy (ecg_loop [0x00, 0x00, 0x00] [0] s))"
    unfolding pmd_data_conv_def list.case payload Let_def offs by simp
  with assms(2) have s1: "s1 = update_busy (push (Num 0) s)"
    by (simp add: slice_def from_bytes_little_signed_def)
  have out: "outlet s1 =
      outlet s @ [[Num 0, resolved (last_hr s), resolved (last_rri s)] @
                  map resolved (last_acc s)]"
    by (simp add: s1 update_busy_def push_outlet output_vector_def)
  have keep: "last_ecg s1 = last_ecg s"
    by (simp add: s1 update_busy_def push_fields)
  from assms(3) have "carries (last_ecg s1) (length (outlet s1)) (fold notify ns s1)"
    by (intro carries_fold) (simp add: list_all_iff)
  then have later: "list_all (\<lambda>vec. vec ! 0 = (case last_ecg s of Some e \<Rightarrow> e | None \<Rightarrow> Num 0))
      (drop (length (outlet s1)) (outlet (fold notify ns s1)))"
    by (simp add: carries_def keep)
  have nonzero: "last_ecg (stream earlier ms) \<noteq> Some (Num 0)"
    using numeric_stream [of earlier ms] by (simp add: numeric_def)
  from push_last_ecg_field [of ecg s] out keep later nonzero show ?thesis by blast
qed

theorem zero_ecg_sample_not_carried_witness:
  "length [0, 0, 0, 0, 0, 0, 0, 0, 0 :: byte] = 9
    \<and> list_all (\<lambda>n. \<not> is_ecg_frame n) [Hrm [0x00, 0x48]]
    \<and> last_ecg (snd (pmd_data_conv (0x00 # [0, 0, 0, 0, 0, 0, 0, 0, 0] @ [0x00, 0x00, 0x00])
                      ((connect_to_device new_app)\<lparr>last_ecg := Some (Num 5)\<rparr>))) = Some (Num 5)
    \<and> list_all (\<lambda>vec. vec ! 0 = Num 5)
        (drop (length (outlet (snd (pmd_data_conv
                 (0x00 # [0, 0, 0, 0, 0, 0, 0, 0, 0] @ [0x00, 0x00, 0x00])
                 ((connect_to_device new_app)\<lparr>last_ecg := Some (Num 5)\<rparr>)))))
           (outlet (fold notify [Hrm [0x00, 0x48]]
              (snd (pmd_data_conv (0x00 # [0, 0, 0, 0, 0, 0, 0, 0, 0] @ [0x00, 0x00, 0x00])
                 ((connect_to_device new_app)\<lparr>last_ecg := Some (Num 5)\<rparr>))))))"
proof -
  let ?s = "(connect_to_device new_app)\<lparr>last_ecg := Some (Num 5)\<rparr>"
  have meta: "length [0, 0, 0, 0, 0, 0, 0, 0, 0 :: byte] = 9"
    by simp
  have later: "list_all (\<lambda>n. \<not> is_ecg_frame n) [Hrm [0x00, 0x48]]"
    by simp
  have stored: "last_ecg ?s = Some (Num 5)"
    by simp
  from zero_ecg_sample_not_carried
      [where s = ?s and ecg = "Num 0" and earlier = "[]" and ms = "[]", OF meta refl later]
  show ?thesis
    unfolding stored option.case using meta later by blast
qed

subsection \<open>Session lifecycle\<close>






subsection \<open>Incomplete sample groups in a combined-data frame\<close>

lemma length_py_range_3: "length (py_range start stop 3) = (stop - start + 2) div 3"
proof (induction start stop "3 :: nat" rule: py_range.induct)
  case (1 start stop)
  show ?case
  proof (cases "start < stop")
    case True
    then have "length (py_range start stop 3) = Suc (length (py_range (start + 3) stop 3))"
      by (simp add: py_range_more)
    also from True have "\<dots> = Suc ((stop - (start + 3) + 2) div 3)"
      by (simp add: "1.hyps")
    also from True have "\<dots> = (stop - start + 2) div 3"
      by arith
    finally show ?thesis .
  next
    case False
    then show ?thesis by (simp add: py_range_done)
  qed
qed

lemma ecg_loop_count: "length (outlet (ecg_loop payload offs s)) = length (outlet s) + length offs"
  by (simp add: ecg_loop_outlet)

lemma acc_loop_partial:
  assumes "start \<le> length payload"
  shows "fst (acc_loop payload (py_range start (length payload) 6) s) =
           (if (length payload - start) mod 6 = 0 then Inr () else Inl StructError)
    \<and> length (outlet (snd (acc_loop payload (py_range start (length payload) 6) s))) =
         length (outlet s) + (length payload - start) div 6"
  using assms
proof (induction start "length payload" "6 :: nat" arbitrary: s rule: py_range.induct)
  case (1 start)
  show ?case
  proof (cases "start < length payload")
    case False
    with "1.prems" show ?thesis by (simp add: py_range_done)
  next
    case more: True
    show ?thesis
    proof (cases "length payload < start + 6")
      case True
      with more have "(length payload - start) mod 6 \<noteq> 0" and "(length payload - start) div 6 = 0"
        by simp_all
      with more True show ?thesis
        by (simp add: py_range_more unpack_from_hhh_def)
    next
      case False
      then have next_ok: "start + 6 \<le> length payload" by simp
      obtain x y z where xyz: "unpack_from_hhh payload start = Inr (x, y, z)"
        using False by (simp add: unpack_from_hhh_def)
      let ?s = "push_last_ecg (s\<lparr>last_acc := [Num (of_int x), Num (of_int y), Num (of_int z)]\<rparr>)"
      from more have step: "acc_loop payload (py_range start (length payload) 6) s =
          acc_loop payload (py_range (start + 6) (length payload) 6) ?s"
        by (simp add: py_range_more xyz)
      from more next_ok have ih: "fst (acc_loop payload (py_range (start + 6) (length payload) 6) ?s) =
            (if (length payload - (start + 6)) mod 6 = 0 then Inr () else Inl StructError)
          \<and> length (outlet (snd (acc_loop payload (py_range (start + 6) (length payload) 6) ?s))) =
              length (outlet ?s) + (length payload - (start + 6)) div 6"
        by (intro "1.hyps") simp_all
      from next_ok have "length payload - start = length payload - (start + 6) + 6"
        by simp
      then have "(length payload - start) mod 6 = (length payload - (start + 6) + 6) mod 6"
        by (rule arg_cong)
      then have m: "(length payload - (start + 6)) mod 6 = (length payload - start) mod 6"
        by (simp only: mod_add_self2)
      from next_ok have d: "Suc ((length payload - (start + 6)) div 6) = (length payload - start) div 6"
        by arith
      from ih show ?thesis
        unfolding step m by (simp add: push_last_ecg_outlet d [symmetric])
    qed
  qed
qed

lemma acc_branch_result:
  "fst (case r of (Inl e, s') \<Rightarrow> (Inl e, s') | (Inr u, s') \<Rightarrow> (Inr (), update_busy s')) = fst r
   \<and> outlet (snd (case r of (Inl e, s') \<Rightarrow> (Inl e, s')
                          | (Inr u, s') \<Rightarrow> (Inr (), update_busy s'))) = outlet (snd r)"
proof (cases r)
  case (Pair res s')
  then show ?thesis by (cases res) (simp_all add: update_busy_def)
qed

text \<open>
  C1. An ECG frame whose sample region has 4 bytes (one complete sample, value 1, and
  one further byte 0x05): \<open>range(0, 4, 3)\<close> yields the offsets 0 and 3, the slice at
  offset 3 holds the single remaining byte, and it is decoded and pushed as a second
  sample with value 5. Two vectors are emitted where \<open>4 div 3 = 1\<close>. In general an ECG
  frame with 9 metadata bytes pushes one vector for every started group of 3 sample
  bytes, \<open>(L + 2) div 3\<close> for a sample region of \<open>L\<close> bytes.
\<close>

theorem ecg_trailing_byte_is_emitted:
  "pmd_data_conv [0x00, 0, 0, 0, 0, 0, 0, 0, 0, 0, 0x01, 0x00, 0x00, 0x05] (connect_to_device new_app) =
     (Inr (),
      (connect_to_device new_app)
        \<lparr>last_ecg := Some (Num 5),
         outlet := [[Num 1, Num 0, Num 0, Num 0, Num 0, Num 0],
                    [Num 5, Num 0, Num 0, Num 0, Num 0, Num 0]],
         clock_queue := 1\<rparr>)
   \<and> length (outlet (snd (pmd_data_conv
         (0x00 # [m1, m2, m3, m4, m5, m6, m7, m8, m9] @ samples) s))) =
       length (outlet s) + (length samples + 2) div 3"
proof -
  have concrete:
    "pmd_data_conv [0x00, 0, 0, 0, 0, 0, 0, 0, 0, 0, 0x01, 0x00, 0x00, 0x05] (connect_to_device new_app) =
       (Inr (),
        (connect_to_device new_app)
          \<lparr>last_ecg := Some (Num 5),
           outlet := [[Num 1, Num 0, Num 0, Num 0, Num 0, Num 0],
                      [Num 5, Num 0, Num 0, Num 0, Num 0, Num 0]],
           clock_queue := 1\<rparr>)"
    by (simp add: pmd_data_conv_def py_range_more py_range_done push_def connect_to_device_def new_app_def
        update_busy_def slice_def from_bytes_little_signed_def)
  have general: "length (outlet (snd (pmd_data_conv
        (0x00 # [m1, m2, m3, m4, m5, m6, m7, m8, m9] @ samples) s))) =
      length (outlet s) + (length samples + 2) div 3"
    by (simp add: pmd_data_conv_def update_busy_def ecg_loop_count length_py_range_3)
  from concrete general show ?thesis by (rule conjI)
qed

text \<open>
  C2. An ACC frame whose sample region has 7 bytes (the group (1, 2, 3) and one further
  byte): the first group is unpacked and pushed, then \<open>unpack_from\<close> at offset 6 raises
  \<open>struct.error\<close> out of \<open>pmd_data_conv\<close>; \<open>update_busy\<close> is not reached. In general an
  ACC frame with 9 metadata bytes and a sample region of \<open>L\<close> bytes pushes \<open>L div 6\<close>
  vectors, and it raises \<open>struct.error\<close> exactly when \<open>L\<close> is not a multiple of 6.
\<close>

theorem acc_trailing_byte_raises:
  "pmd_data_conv [0x01, 0, 0, 0, 0, 0, 0, 0, 0, 0, 1, 0, 2, 0, 3, 0, 7] (connect_to_device new_app) =
     (Inl StructError,
      (connect_to_device new_app)
        \<lparr>last_acc := [Num 1, Num 2, Num 3],
         outlet := [[Num 0, Num 0, Num 0, Num 1, Num 2, Num 3]]\<rparr>)
   \<and> fst (pmd_data_conv (0x01 # [m1, m2, m3, m4, m5, m6, m7, m8, m9] @ samples) s) =
       (if length samples mod 6 = 0 then Inr () else Inl StructError)
   \<and> length (outlet (snd (pmd_data_conv
         (0x01 # [m1, m2, m3, m4, m5, m6, m7, m8, m9] @ samples) s))) =
       length (outlet s) + length samples div 6"
proof -
  have concrete:
    "pmd_data_conv [0x01, 0, 0, 0, 0, 0, 0, 0, 0, 0, 1, 0, 2, 0, 3, 0, 7] (connect_to_device new_app) =
       (Inl StructError,
        (connect_to_device new_app)
          \<lparr>last_acc := [Num 1, Num 2, Num 3],
           outlet := [[Num 0, Num 0, Num 0, Num 1, Num 2, Num 3]]\<rparr>)"
    by (simp add: pmd_data_conv_def py_range_more py_range_done push_def push_last_ecg_def
        unpack_from_hhh_def connect_to_device_def new_app_def slice_def from_bytes_little_signed_def)
  have conv: "pmd_data_conv (0x01 # [m1, m2, m3, m4, m5, m6, m7, m8, m9] @ samples) s =
      (case acc_loop samples (py_range 0 (length samples) 6) s of
         (Inl e, s') \<Rightarrow> (Inl e, s')
       | (Inr u, s') \<Rightarrow> (Inr (), update_busy s'))"
    by (simp add: pmd_data_conv_def)
  from acc_loop_partial [of 0 samples s]
  have loop: "fst (acc_loop samples (py_range 0 (length samples) 6) s) =
        (if length samples mod 6 = 0 then Inr () else Inl StructError)"
      "length (outlet (snd (acc_loop samples (py_range 0 (length samples) 6) s))) =
        length (outlet s) + length samples div 6"
    by simp_all
  from concrete loop show ?thesis
    unfolding conv by (simp only: acc_branch_result simp_thms)
qed

end
